theory Spec2Isabelle
  imports Main "HOL-Library.AList" "HOL-Library.Multiset"
begin

section \<open>MemberStorage.h: member identities and the registry\<close>

text \<open>
  A pointer to data member \<^verbatim>\<open>MemberType ClassType::*arg\<close>. The source reads two things of
  it: \<^verbatim>\<open>typeid(ClassType).hash_code()\<close> of the owning class, and the pointer value itself,
  which it only ever compares with \<^verbatim>\<open>==\<close>. The member's type takes part in no comparison
  (it is only the target of a \<^verbatim>\<open>static_cast\<close>).
\<close>

record member_ptr =
  owner_hash :: nat
  slot :: nat

text \<open>
  An object of \<^verbatim>\<open>Member_t<_ClassType, _MemberType>\<close> on the free store. The table keys are
  \<^verbatim>\<open>MemberTypeBase*\<close>, so the address of the object is part of what a key is.
\<close>

record Member_t =
  address :: nat
  class_hash :: nat
  member :: nat

definition new_Member_t :: "nat \<Rightarrow> member_ptr \<Rightarrow> Member_t" where
  "new_Member_t a arg = \<lparr>address = a, class_hash = owner_hash arg, member = slot arg\<rparr>"

definition isEqual :: "Member_t \<Rightarrow> Member_t \<Rightarrow> bool" where
  "isEqual this rhs =
     (if class_hash this = class_hash rhs then member rhs = member this else False)"

definition MemberHasher :: "Member_t \<Rightarrow> nat" where
  "MemberHasher val = address val"

definition MemberEqual :: "Member_t \<Rightarrow> Member_t \<Rightarrow> bool" where
  "MemberEqual val1 val2 = isEqual val1 val2"

text \<open>
  Everything the source throws is derived from \<^verbatim>\<open>std::exception\<close>: the
  \<^verbatim>\<open>std::runtime_error\<close> of \<^verbatim>\<open>MemberStorage::get\<close>, \<^verbatim>\<open>std::bad_variant_access\<close> of
  \<^verbatim>\<open>std::get\<close>, and the document library's \<^verbatim>\<open>out_of_range\<close> (key absent) and
  \<^verbatim>\<open>type_error\<close> (wrong kind of document, failed conversion).
\<close>

datatype exn = No_storage | Bad_variant_access | Json_out_of_range | Json_type_error

text \<open>
  The static \<^verbatim>\<open>storage\<close> of one instantiation \<^verbatim>\<open>MemberStorage<T, StoredType>\<close>, as the
  sequence of its entries in iteration order.
\<close>

type_synonym 'st storage = "(Member_t \<times> 'st) list"

text \<open>The predicate of the \<^verbatim>\<open>std::find_if\<close> in \<^verbatim>\<open>get\<close>.\<close>

definition get_pred :: "member_ptr \<Rightarrow> Member_t \<times> 'st \<Rightarrow> bool" where
  "get_pred arg it =
     (if class_hash (fst it) = owner_hash arg then member (fst it) = slot arg else False)"

definition MemberStorage_get :: "'st storage \<Rightarrow> member_ptr \<Rightarrow> exn + 'st" where
  "MemberStorage_get storage arg =
     (case find (get_pred arg) storage of
        Some it \<Rightarrow> Inr (snd it)
      | None \<Rightarrow> Inl No_storage)"

text \<open>
  \<^verbatim>\<open>storage[key] = value\<close> on the \<^verbatim>\<open>std::unordered_map\<close>. The table looks among the stored
  keys it cannot tell apart from \<^verbatim>\<open>key\<close> by hash for one that \<^verbatim>\<open>MemberEqual\<close> accepts; it
  assigns to that entry, or else adds the entry \<^verbatim>\<open>(key, value)\<close>. Which hash values a table
  tells apart is the standard library's business and is the parameter \<open>same_bucket\<close>: equality
  for a table that compares stored hash codes, \<open>\<lambda>h h'. h mod n = h' mod n\<close> for one that
  compares bucket indices only. The order in which the table then iterates over its entries
  is unspecified and may change with every call: it is the parameter \<open>rehash\<close> of
  \<^verbatim>\<open>registerMember\<close>, which rearranges the entries of the table.
\<close>

definition key_found :: "(nat \<Rightarrow> nat \<Rightarrow> bool) \<Rightarrow> Member_t \<Rightarrow> Member_t \<times> 'st \<Rightarrow> bool" where
  "key_found same_bucket k it =
     (same_bucket (MemberHasher k) (MemberHasher (fst it)) \<and> MemberEqual (fst it) k)"

fun subscript_assign ::
  "(nat \<Rightarrow> nat \<Rightarrow> bool) \<Rightarrow> 'st storage \<Rightarrow> Member_t \<Rightarrow> 'st \<Rightarrow> 'st storage" where
  "subscript_assign same_bucket [] k v = [(k, v)]"
| "subscript_assign same_bucket (it # rest) k v =
     (if key_found same_bucket k it then (fst it, v) # rest
      else it # subscript_assign same_bucket rest k v)"

text \<open>
  The state of the process that the registry code touches: the table, the next address the
  free store hands out (\<^verbatim>\<open>new Member_t(arg)\<close> never frees), and the \<^verbatim>\<open>std::once_flag\<close>
  of each instantiation \<^verbatim>\<open>callInitMembers<T>\<close>.
\<close>

record 'st process =
  storage :: "'st storage"
  free_store :: nat
  register_once :: "nat \<Rightarrow> bool"

definition registerMember ::
  "(nat \<Rightarrow> nat \<Rightarrow> bool) \<Rightarrow> ('st storage \<Rightarrow> 'st storage) \<Rightarrow> member_ptr \<Rightarrow> 'st \<Rightarrow>
     'st process \<Rightarrow> bool \<times> 'st process" where
  "registerMember same_bucket rehash arg val p =
     (let k = new_Member_t (free_store p) arg
      in (True, p\<lparr>storage := rehash (subscript_assign same_bucket (storage p) k val),
                  free_store := Suc (free_store p)\<rparr>))"

text \<open>
  \<^verbatim>\<open>std::call_once(register_once, &MemberStorageBase::InitMembers, this)\<close>: a set flag returns
  at once; otherwise the routine runs, and the flag is set only when it returns normally
  (an exception leaves the flag unset and propagates).
\<close>

definition callInitMembers ::
  "nat \<Rightarrow> ('st process \<Rightarrow> exn + 'st process) \<Rightarrow> 'st process \<Rightarrow> exn + 'st process" where
  "callInitMembers T InitMembers p =
     (if register_once p T then Inr p
      else case InitMembers p of
             Inl e \<Rightarrow> Inl e
           | Inr p' \<Rightarrow> Inr (p'\<lparr>register_once := (register_once p')(T := True)\<rparr>))"

text \<open>
  \<^verbatim>\<open>SERIALIZER_ADD_MEMBER(Class, Member)\<close> expands to
  \<^verbatim>\<open>Class::registerMember(&Class::Member, #Member);\<close>: the member is registered under its own
  name, and the result of \<^verbatim>\<open>registerMember\<close> is dropped.
\<close>

definition SERIALIZER_ADD_MEMBER ::
  "(nat \<Rightarrow> nat \<Rightarrow> bool) \<Rightarrow> (string storage \<Rightarrow> string storage) \<Rightarrow> nat \<Rightarrow>
     nat \<times> string \<Rightarrow> string process \<Rightarrow> string process" where
  "SERIALIZER_ADD_MEMBER same_bucket rehash Class Member p =
     snd (registerMember same_bucket rehash \<lparr>owner_hash = Class, slot = fst Member\<rparr>
            (snd Member) p)"

text \<open>
  Modelled from the spec: the override of \<^verbatim>\<open>InitMembers\<close>, which is pure virtual in
  \<^verbatim>\<open>MemberStorageBase\<close> and written by each concrete class. The spec has a class invoke the
  member declaration macro "once per member, inside its one-time initializer"; the class is
  given by the list \<open>Members\<close> of its (pointer value, name) pairs, and the override is one
  \<^verbatim>\<open>SERIALIZER_ADD_MEMBER\<close> for each, in turn.
\<close>

definition InitMembers ::
  "(nat \<Rightarrow> nat \<Rightarrow> bool) \<Rightarrow> (string storage \<Rightarrow> string storage) \<Rightarrow> nat \<Rightarrow>
     (nat \<times> string) list \<Rightarrow> string process \<Rightarrow> exn + string process" where
  "InitMembers same_bucket rehash Class Members p =
     Inr (fold (SERIALIZER_ADD_MEMBER same_bucket rehash Class) Members p)"

text \<open>\<open>n\<close> calls of \<^verbatim>\<open>callInitMembers\<close> in a row, stopping at the first that throws.\<close>

fun callInitMembers_times ::
  "nat \<Rightarrow> nat \<Rightarrow> ('st process \<Rightarrow> exn + 'st process) \<Rightarrow> 'st process \<Rightarrow> exn + 'st process" where
  "callInitMembers_times 0 T init p = Inr p"
| "callInitMembers_times (Suc n) T init p =
     (case callInitMembers T init p of
        Inl e \<Rightarrow> Inl e
      | Inr p' \<Rightarrow> callInitMembers_times n T init p')"

definition process_start :: "'st process" where
  "process_start = \<lparr>storage = [], free_store = 0, register_once = (\<lambda>T. False)\<rparr>"

text \<open>The entries of the table that \<^verbatim>\<open>get\<close> accepts for a member pointer.\<close>

definition entries_for :: "member_ptr \<Rightarrow> 'st storage \<Rightarrow> (Member_t \<times> 'st) list" where
  "entries_for arg st = filter (get_pred arg) st"

section \<open>Serializer.h: the document interface\<close>

text \<open>
  The document type \<^verbatim>\<open>nlohmann::json\<close>, as far as the source uses it: a tree whose objects
  map key strings to documents. Of its operations the source calls \<^verbatim>\<open>at(key)\<close> on a
  constant document and \<^verbatim>\<open>operator[](key)\<close> followed by an assignment.
\<close>

datatype json =
    JNull
  | JBool bool
  | JNumber int
  | JString string
  | JArray "json list"
  | JObject "(string \<times> json) list"

text \<open>
  \<^verbatim>\<open>source.at(name)\<close>: the child under the key; \<^verbatim>\<open>out_of_range\<close> when the object has no such
  key, \<^verbatim>\<open>type_error\<close> when the document is not an object.
\<close>

definition json_at :: "json \<Rightarrow> string \<Rightarrow> exn + json" where
  "json_at source name =
     (case source of
        JObject kvs \<Rightarrow>
          (case map_of kvs name of Some child \<Rightarrow> Inr child | None \<Rightarrow> Inl Json_out_of_range)
      | _ \<Rightarrow> Inl Json_type_error)"

text \<open>
  \<^verbatim>\<open>target[name] = j\<close>: a null document becomes an object first; an object gets or replaces
  the key; any other document throws \<^verbatim>\<open>type_error\<close>.
\<close>

definition json_subscript_assign :: "json \<Rightarrow> string \<Rightarrow> json \<Rightarrow> exn + json" where
  "json_subscript_assign target name j =
     (case target of
        JNull \<Rightarrow> Inr (JObject [(name, j)])
      | JObject kvs \<Rightarrow> Inr (JObject (AList.update name j kvs))
      | _ \<Rightarrow> Inl Json_type_error)"

section \<open>Serializer.h: members, indirection and the field helpers\<close>

text \<open>
  How a call ends when it does not return: with an exception, or by running into behaviour
  the language leaves undefined (the dereference of a null pointer), which no handler
  catches.
\<close>

datatype failure = Throw exn | Undefined_behaviour

text \<open>
  What a data member holds, by the three cases \<^verbatim>\<open>getMemberRef\<close> tells apart on the member's
  type: a \<^verbatim>\<open>std::variant\<close> with the index of its active alternative and that alternative's
  value, a \<^verbatim>\<open>std::shared_ptr\<close> (null, or the address of the pointee), or a value held
  directly. Pointees live in a heap shared by all objects, so two handles may name one
  pointee.
\<close>

datatype 'v member_val = Plain 'v | Variant nat 'v | Shared_ptr "nat option"

type_synonym 'v object = "nat \<Rightarrow> 'v member_val"

type_synonym 'v heap = "nat \<Rightarrow> 'v option"

text \<open>The reference \<^verbatim>\<open>getMemberRef\<close> returns: to the member, to its active alternative, or to the pointee.\<close>

datatype ref = Ref_member nat | Ref_arm nat | Ref_pointee nat

text \<open>
  \<^verbatim>\<open>getMemberRef<_TargetType>(arg, instance)\<close>; the const and the non-const overload have the
  same body. \<open>TargetType\<close> is the index of \<^verbatim>\<open>_TargetType\<close> among the alternatives of the
  variant; \<^verbatim>\<open>std::get\<close> throws \<^verbatim>\<open>std::bad_variant_access\<close> unless it is the active one. The
  handle is dereferenced without a test.
\<close>

definition getMemberRef :: "nat \<Rightarrow> member_ptr \<Rightarrow> 'v object \<Rightarrow> failure + ref" where
  "getMemberRef TargetType arg inst =
     (case inst (slot arg) of
        Variant active v \<Rightarrow>
          (if active = TargetType then Inr (Ref_arm (slot arg)) else Inl (Throw Bad_variant_access))
      | Shared_ptr p \<Rightarrow>
          (case p of Some a \<Rightarrow> Inr (Ref_pointee a) | None \<Rightarrow> Inl Undefined_behaviour)
      | Plain v \<Rightarrow> Inr (Ref_member (slot arg)))"

text \<open>Reading and assigning through a reference.\<close>

fun load :: "'v object \<Rightarrow> 'v heap \<Rightarrow> ref \<Rightarrow> failure + 'v" where
  "load inst h (Ref_member s) =
     (case inst s of Plain v \<Rightarrow> Inr v | _ \<Rightarrow> Inl Undefined_behaviour)"
| "load inst h (Ref_arm s) =
     (case inst s of Variant active v \<Rightarrow> Inr v | _ \<Rightarrow> Inl Undefined_behaviour)"
| "load inst h (Ref_pointee a) =
     (case h a of Some v \<Rightarrow> Inr v | None \<Rightarrow> Inl Undefined_behaviour)"

fun store :: "'v object \<Rightarrow> 'v heap \<Rightarrow> ref \<Rightarrow> 'v \<Rightarrow> 'v object \<times> 'v heap" where
  "store inst h (Ref_member s) v = (inst(s := Plain v), h)"
| "store inst h (Ref_arm s) v =
     (case inst s of Variant active old \<Rightarrow> (inst(s := Variant active v), h) | _ \<Rightarrow> (inst, h))"
| "store inst h (Ref_pointee a) v = (inst, h(a \<mapsto> v))"

text \<open>
  \<^verbatim>\<open>handleException\<close>: without \<^verbatim>\<open>DEBUG\<close> its body is empty, with it the message is printed;
  the \<^verbatim>\<open>throw SerializerException(e.what())\<close> is commented out. It returns normally.
\<close>

definition handleException :: "exn \<Rightarrow> failure + unit" where
  "handleException e = Inr ()"

text \<open>
  \<^verbatim>\<open>try { body } catch (std::exception& e) { handleException(e); }\<close>, where \<open>fallback\<close> is
  what the function leaves behind when the handler has run.
\<close>

definition try_catch :: "'a \<Rightarrow> failure + 'a \<Rightarrow> failure + 'a" where
  "try_catch fallback body =
     (case body of
        Inr x \<Rightarrow> Inr x
      | Inl (Throw e) \<Rightarrow>
          (case handleException e of Inl f \<Rightarrow> Inl f | Inr u \<Rightarrow> Inr fallback)
      | Inl Undefined_behaviour \<Rightarrow> Inl Undefined_behaviour)"

text \<open>
  The static \<^verbatim>\<open>to_json_simple\<close>:
  \<^verbatim>\<open>auto& name = Serializer::get(arg); target[name] = getMemberRef<_TargetType>(arg, instance);\<close>
  The right-hand side of the assignment (the reference, and the conversion of the value to a
  document by the library, \<open>to_json\<close>) is evaluated before \<^verbatim>\<open>target[name]\<close>, as C++17
  sequences it, so an exception on the right leaves \<open>target\<close> as it was.
\<close>

definition to_json_simple ::
  "string storage \<Rightarrow> ('v \<Rightarrow> exn + json) \<Rightarrow> json \<Rightarrow> nat \<Rightarrow> member_ptr \<Rightarrow>
     'v object \<Rightarrow> 'v heap \<Rightarrow> failure + json" where
  "to_json_simple st to_json target TargetType arg inst h =
     try_catch target
       (case MemberStorage_get st arg of
          Inl e \<Rightarrow> Inl (Throw e)
        | Inr name \<Rightarrow>
            (case getMemberRef TargetType arg inst of
               Inl f \<Rightarrow> Inl f
             | Inr r \<Rightarrow>
                 (case load inst h r of
                    Inl f \<Rightarrow> Inl f
                  | Inr v \<Rightarrow>
                      (case to_json v of
                         Inl e \<Rightarrow> Inl (Throw e)
                       | Inr j \<Rightarrow>
                           (case json_subscript_assign target name j of
                              Inl e \<Rightarrow> Inl (Throw e)
                            | Inr target' \<Rightarrow> Inr target')))))"

text \<open>
  The static \<^verbatim>\<open>from_json_simple\<close>:
  \<^verbatim>\<open>auto& name = Serializer::get(arg); source.at(name).get_to(getMemberRef<_TargetType>(arg, instance));\<close>
  \<^verbatim>\<open>source.at(name)\<close> is evaluated before the argument of \<^verbatim>\<open>get_to\<close>. The library's
  conversion \<open>get_to\<close> receives the child document and the value the reference now holds
  (which carries the static type converted to) and gives the new value; a conversion that
  throws is taken to leave the referenced value as it was.
\<close>

definition from_json_simple ::
  "string storage \<Rightarrow> (json \<Rightarrow> 'v \<Rightarrow> exn + 'v) \<Rightarrow> json \<Rightarrow> nat \<Rightarrow> member_ptr \<Rightarrow>
     'v object \<Rightarrow> 'v heap \<Rightarrow> failure + ('v object \<times> 'v heap)" where
  "from_json_simple st get_to source TargetType arg inst h =
     try_catch (inst, h)
       (case MemberStorage_get st arg of
          Inl e \<Rightarrow> Inl (Throw e)
        | Inr name \<Rightarrow>
            (case json_at source name of
               Inl e \<Rightarrow> Inl (Throw e)
             | Inr child \<Rightarrow>
                 (case getMemberRef TargetType arg inst of
                    Inl f \<Rightarrow> Inl f
                  | Inr r \<Rightarrow>
                      (case load inst h r of
                         Inl f \<Rightarrow> Inl f
                       | Inr old \<Rightarrow>
                           (case get_to child old of
                              Inl e \<Rightarrow> Inl (Throw e)
                            | Inr v \<Rightarrow> Inr (store inst h r v))))))"

text \<open>
  \<^verbatim>\<open>get_json_for_property\<close>:
  \<^verbatim>\<open>try { auto& name = Serializer::get(arg); return source.at(name); }\<close>
  \<^verbatim>\<open>catch (std::exception& e) { handleException(e); return nlohmann::json(); }\<close>
\<close>

definition get_json_for_property :: "string storage \<Rightarrow> json \<Rightarrow> member_ptr \<Rightarrow> failure + json" where
  "get_json_for_property st source arg =
     try_catch JNull
       (case MemberStorage_get st arg of
          Inl e \<Rightarrow> Inl (Throw e)
        | Inr name \<Rightarrow>
            (case json_at source name of
               Inl e \<Rightarrow> Inl (Throw e)
             | Inr child \<Rightarrow> Inr child))"

text \<open>The value a field operation reaches through a member: the reference, then its content.\<close>

definition member_value :: "nat \<Rightarrow> member_ptr \<Rightarrow> 'v object \<Rightarrow> 'v heap \<Rightarrow> failure + 'v" where
  "member_value TargetType arg inst h =
     (case getMemberRef TargetType arg inst of
        Inl f \<Rightarrow> Inl f
      | Inr r \<Rightarrow> load inst h r)"

section \<open>The two operations of a concrete class\<close>

text \<open>
  Modelled from the spec: the bodies of \<^verbatim>\<open>to_json\<close> and \<^verbatim>\<open>from_json\<close>, which are pure
  virtual in \<^verbatim>\<open>Serializer\<close> and written by each concrete class. The spec has every class
  implement them "by calling the above helpers for each of its fields in turn"; a class is
  given by the list of its fields, each a member pointer with the target type it is
  annotated with.
\<close>

type_synonym field = "member_ptr \<times> nat"

fun toDocument ::
  "string storage \<Rightarrow> ('v \<Rightarrow> exn + json) \<Rightarrow> field list \<Rightarrow> 'v object \<Rightarrow> 'v heap \<Rightarrow>
     json \<Rightarrow> failure + json" where
  "toDocument st to_json [] inst h out = Inr out"
| "toDocument st to_json (f # fs) inst h out =
     (case to_json_simple st to_json out (snd f) (fst f) inst h of
        Inl e \<Rightarrow> Inl e
      | Inr out' \<Rightarrow> toDocument st to_json fs inst h out')"

fun fromDocument ::
  "string storage \<Rightarrow> (json \<Rightarrow> 'v \<Rightarrow> exn + 'v) \<Rightarrow> field list \<Rightarrow> json \<Rightarrow>
     'v object \<Rightarrow> 'v heap \<Rightarrow> failure + ('v object \<times> 'v heap)" where
  "fromDocument st get_to [] source inst h = Inr (inst, h)"
| "fromDocument st get_to (f # fs) source inst h =
     (case from_json_simple st get_to source (snd f) (fst f) inst h of
        Inl e \<Rightarrow> Inl e
      | Inr (inst', h') \<Rightarrow> fromDocument st get_to fs source inst' h')"

section \<open>A small class for the examples\<close>

text \<open>
  Values of two kinds with the document library's conversions for them: a number converts
  to and from a number document, a string to and from a string document, and a document of
  the wrong kind is a \<^verbatim>\<open>type_error\<close>.
\<close>

datatype sample = Int_val int | String_val string

fun sample_to_json :: "sample \<Rightarrow> exn + json" where
  "sample_to_json (Int_val n) = Inr (JNumber n)"
| "sample_to_json (String_val s) = Inr (JString s)"

fun sample_get_to :: "json \<Rightarrow> sample \<Rightarrow> exn + sample" where
  "sample_get_to (JNumber n) (Int_val old) = Inr (Int_val n)"
| "sample_get_to (JString s) (String_val old) = Inr (String_val s)"
| "sample_get_to j old = Inl Json_type_error"

text \<open>
  A class \<open>7\<close> with members \<^verbatim>\<open>x\<close> (slot 0), \<^verbatim>\<open>u\<close> (slot 1, a variant) and \<^verbatim>\<open>p\<close> (slot 2, a
  shared pointer), and its table after \<^verbatim>\<open>InitMembers\<close> has run once.
\<close>

definition sample_members :: "(nat \<times> string) list" where
  "sample_members = [(0, ''x''), (1, ''u''), (2, ''p'')]"

definition sample_storage :: "string storage" where
  "sample_storage =
     storage (fold (SERIALIZER_ADD_MEMBER (=) (\<lambda>s. s) 7) sample_members process_start)"

definition member_x :: member_ptr where "member_x = \<lparr>owner_hash = 7, slot = 0\<rparr>"
definition member_u :: member_ptr where "member_u = \<lparr>owner_hash = 7, slot = 1\<rparr>"
definition member_p :: member_ptr where "member_p = \<lparr>owner_hash = 7, slot = 2\<rparr>"
definition member_q :: member_ptr where "member_q = \<lparr>owner_hash = 7, slot = 3\<rparr>"

text \<open>
  An object of the class in a valid state (the variant holds its second alternative, the
  handle is not null), and a default-constructed one (the variant holds its first
  alternative, the handle is null).
\<close>

definition sample_object :: "sample object" where
  "sample_object =
     (\<lambda>s. Plain (Int_val 0))
       (0 := Plain (Int_val 3), 1 := Variant 1 (String_val ''b''), 2 := Shared_ptr (Some 100))"

definition sample_heap :: "sample heap" where
  "sample_heap = Map.empty(100 \<mapsto> Int_val 9, 101 \<mapsto> Int_val 0)"

definition default_object :: "sample object" where
  "default_object =
     (\<lambda>s. Plain (Int_val 0))(1 := Variant 0 (Int_val 0), 2 := Shared_ptr None)"

text \<open>
  The fields of the class as its \<^verbatim>\<open>to_json\<close> and \<^verbatim>\<open>from_json\<close> list them (the variant is
  annotated with its second alternative), and a receiving object whose variant already
  holds that alternative and whose handle has a pointee of its own.
\<close>

definition sample_fields :: "field list" where
  "sample_fields = [(member_x, 0), (member_u, 1), (member_p, 0)]"

definition receiver_object :: "sample object" where
  "receiver_object =
     (\<lambda>s. Plain (Int_val 0))(1 := Variant 1 (String_val []), 2 := Shared_ptr (Some 101))"

section \<open>Facts about the example class\<close>

lemma sample_storage_eval:
  "sample_storage =
     [(\<lparr>address = 0, class_hash = 7, member = 0\<rparr>, ''x''),
      (\<lparr>address = 1, class_hash = 7, member = 1\<rparr>, ''u''),
      (\<lparr>address = 2, class_hash = 7, member = 2\<rparr>, ''p'')]"
  by (simp add: sample_storage_def sample_members_def process_start_def
      SERIALIZER_ADD_MEMBER_def registerMember_def new_Member_t_def key_found_def
      MemberHasher_def MemberEqual_def isEqual_def)

lemma sample_get [simp]:
  "MemberStorage_get sample_storage member_x = Inr ''x''"
  "MemberStorage_get sample_storage member_u = Inr ''u''"
  "MemberStorage_get sample_storage member_p = Inr ''p''"
  "MemberStorage_get sample_storage member_q = Inl No_storage"
  by (simp_all add: sample_storage_eval MemberStorage_get_def get_pred_def
      member_x_def member_u_def member_p_def member_q_def)

lemma sample_slot [simp]:
  "slot member_x = 0" "slot member_u = 1" "slot member_p = 2" "slot member_q = 3"
  by (simp_all add: member_x_def member_u_def member_p_def member_q_def)

section \<open>The registry: lookup, identity, registration\<close>

lemma find_filter_conv:
  "find P xs = (case filter P xs of [] \<Rightarrow> None | x # rest \<Rightarrow> Some x)"
  by (induction xs) simp_all

text \<open>
  Claim C2. \<^verbatim>\<open>MemberStorage::get\<close> throws (the \<^verbatim>\<open>std::runtime_error\<close> "No storage for ...")
  when the table has no entry for the member pointer, and never returns a value then; when
  the table has entries for it, \<^verbatim>\<open>get\<close> returns the value stored with the first of them, which
  is the member's value when the member has one entry.
\<close>

theorem get_not_registered_throws:
  "(entries_for arg st = [] \<longrightarrow> MemberStorage_get st arg = Inl No_storage) \<and>
   (\<forall>k v rest. entries_for arg st = (k, v) # rest \<longrightarrow> MemberStorage_get st arg = Inr v)"
  by (simp add: MemberStorage_get_def entries_for_def find_filter_conv)

theorem get_not_registered_throws_witness:
  "entries_for member_q sample_storage = [] \<and>
   MemberStorage_get sample_storage member_q = Inl No_storage \<and>
   entries_for member_u sample_storage = [(\<lparr>address = 1, class_hash = 7, member = 1\<rparr>, ''u'')] \<and>
   MemberStorage_get sample_storage member_u = Inr ''u''"
proof -
  have q: "entries_for member_q sample_storage = []"
    by (simp add: sample_storage_eval entries_for_def get_pred_def member_q_def)
  have u: "entries_for member_u sample_storage =
      [(\<lparr>address = 1, class_hash = 7, member = 1\<rparr>, ''u'')]"
    by (simp add: sample_storage_eval entries_for_def get_pred_def member_u_def)
  from get_not_registered_throws [of member_q sample_storage] q
  have "MemberStorage_get sample_storage member_q = Inl No_storage" by simp
  moreover from get_not_registered_throws [of member_u sample_storage] u
  have "MemberStorage_get sample_storage member_u = Inr ''u''" by simp
  ultimately show ?thesis using q u by simp
qed

text \<open>
  Claim C5, as the code has it. \<^verbatim>\<open>MemberEqual\<close> accepts any two identity objects made from
  the same pointer to member, wherever they lie: it compares the class hash and the member
  and nothing else. \<^verbatim>\<open>MemberHasher\<close> is the address of the identity object.
\<close>

theorem equality_logical_hash_address:
  "MemberEqual (new_Member_t a arg) (new_Member_t b arg) \<and>
   MemberEqual k1 k2 = (class_hash k1 = class_hash k2 \<and> member k1 = member k2) \<and>
   MemberHasher (new_Member_t a arg) = a"
  by (auto simp add: MemberEqual_def isEqual_def MemberHasher_def new_Member_t_def)

text \<open>
  Two identity objects made from \<^verbatim>\<open>&C::x\<close> at two addresses are equal and hash differently.
\<close>

theorem hash_is_address_counterexample:
  "MemberEqual (new_Member_t 0 member_x) (new_Member_t 1 member_x) \<and>
   MemberHasher (new_Member_t 0 member_x) \<noteq> MemberHasher (new_Member_t 1 member_x)"
  by (simp add: MemberEqual_def isEqual_def MemberHasher_def new_Member_t_def)

lemma get_pred_new_Member_t:
  "get_pred arg' (new_Member_t a arg, v)
     = (owner_hash arg = owner_hash arg' \<and> slot arg = slot arg')"
  by (simp add: get_pred_def new_Member_t_def)

lemma key_found_get_pred:
  "key_found same_bucket (new_Member_t a arg) it \<Longrightarrow> get_pred arg it"
  by (auto simp add: key_found_def MemberEqual_def isEqual_def get_pred_def new_Member_t_def
      split: if_splits)

lemma subscript_assign_absent:
  "entries_for arg st = [] \<Longrightarrow>
   subscript_assign same_bucket st (new_Member_t a arg) v = st @ [(new_Member_t a arg, v)]"
proof (induction st)
  case Nil
  show ?case by simp
next
  case (Cons it rest)
  from Cons.prems have n: "\<not> get_pred arg it" and r: "entries_for arg rest = []"
    by (auto simp add: entries_for_def split: if_splits)
  from n have "\<not> key_found same_bucket (new_Member_t a arg) it"
    using key_found_get_pred by blast
  with Cons.IH [OF r] show ?case by simp
qed

lemma subscript_assign_cases:
  "mset (subscript_assign same_bucket st k v) = add_mset (k, v) (mset st) \<or>
   (\<exists>k' old. (k', old) \<in> set st \<and> MemberEqual k' k \<and>
      mset (subscript_assign same_bucket st k v)
        = add_mset (k', v) (mset st - {#(k', old)#}))"
proof (induction st)
  case Nil
  show ?case by simp
next
  case (Cons it rest)
  show ?case
  proof (cases "key_found same_bucket k it")
    case True
    then have e: "MemberEqual (fst it) k" by (simp add: key_found_def)
    have i: "(fst it, snd it) \<in> set (it # rest)" by simp
    have m: "mset (subscript_assign same_bucket (it # rest) k v)
        = add_mset (fst it, v) (mset (it # rest) - {#(fst it, snd it)#})"
      using True by simp
    from i e m show ?thesis by blast
  next
    case False
    from Cons.IH show ?thesis
    proof
      assume "mset (subscript_assign same_bucket rest k v) = add_mset (k, v) (mset rest)"
      then have "mset (subscript_assign same_bucket (it # rest) k v)
          = add_mset (k, v) (mset (it # rest))"
        using False by simp
      then show ?thesis ..
    next
      assume "\<exists>k' old. (k', old) \<in> set rest \<and> MemberEqual k' k \<and>
        mset (subscript_assign same_bucket rest k v)
          = add_mset (k', v) (mset rest - {#(k', old)#})"
      then obtain k' old where i: "(k', old) \<in> set rest" and e: "MemberEqual k' k"
        and m: "mset (subscript_assign same_bucket rest k v)
          = add_mset (k', v) (mset rest - {#(k', old)#})"
        by blast
      from i have i': "(k', old) \<in> set (it # rest)" by simp
      from i have "(k', old) \<in># mset rest" by simp
      then have "add_mset it (mset rest) - {#(k', old)#}
          = add_mset it (mset rest - {#(k', old)#})"
        by (rule diff_union_swap2)
      with m have "mset (subscript_assign same_bucket (it # rest) k v)
          = add_mset (k', v) (mset (it # rest) - {#(k', old)#})"
        using False by simp
      with i' e show ?thesis by blast
    qed
  qed
qed

lemma entries_for_same_member:
  "owner_hash arg = owner_hash arg' \<Longrightarrow> slot arg = slot arg' \<Longrightarrow>
   entries_for arg' st = entries_for arg st"
  unfolding entries_for_def by (rule filter_cong) (simp_all add: get_pred_def)

lemma entries_for_added:
  assumes "mset st' = add_mset (new_Member_t a arg, v) (mset st)"
  shows "mset (entries_for arg' st')
     = mset (entries_for arg' st) +
       (if owner_hash arg = owner_hash arg' \<and> slot arg = slot arg'
        then {#(new_Member_t a arg, v)#} else {#})"
  by (simp add: entries_for_def assms get_pred_new_Member_t)

lemma get_single_entry:
  assumes "mset (entries_for arg st) = {#(k, v)#}"
  shows "MemberStorage_get st arg = Inr v"
proof -
  from assms have "filter (get_pred arg) st = [(k, v)]"
    by (simp only: entries_for_def mset_single_iff)
  then show ?thesis by (simp add: MemberStorage_get_def find_filter_conv)
qed

lemma storage_registerMember_absent:
  assumes "\<forall>s. mset (rehash s) = mset s" and "entries_for arg (storage p) = []"
  shows "mset (storage (snd (registerMember same_bucket rehash arg val p)))
     = add_mset (new_Member_t (free_store p) arg, val) (mset (storage p))"
  using assms by (simp add: registerMember_def Let_def subscript_assign_absent)

text \<open>
  Claim C4, as the code has it. \<^verbatim>\<open>registerMember\<close> allocates a new identity object and
  returns \<^verbatim>\<open>true\<close> whatever the table held. It either adds the entry made of the new object
  and the value, or assigns the value to an entry whose stored object is equal to the new
  one; every other entry is kept. When the table has no entry for the member, the entry is
  added, \<^verbatim>\<open>get\<close> then returns the value, and a table with at most one entry for each member
  stays so.
\<close>

theorem registerMember_always_true:
  assumes "\<forall>s. mset (rehash s) = mset s"
  shows "fst (registerMember same_bucket rehash arg val p) = True \<and>
   free_store (snd (registerMember same_bucket rehash arg val p)) = Suc (free_store p) \<and>
   (\<exists>k. (k, val) \<in> set (storage (snd (registerMember same_bucket rehash arg val p))) \<and>
      MemberEqual k (new_Member_t (free_store p) arg)) \<and>
   (mset (storage (snd (registerMember same_bucket rehash arg val p)))
      = add_mset (new_Member_t (free_store p) arg, val) (mset (storage p)) \<or>
    (\<exists>k old. (k, old) \<in> set (storage p) \<and> MemberEqual k (new_Member_t (free_store p) arg) \<and>
       mset (storage (snd (registerMember same_bucket rehash arg val p)))
         = add_mset (k, val) (mset (storage p) - {#(k, old)#}))) \<and>
   (entries_for arg (storage p) = [] \<longrightarrow>
      mset (storage (snd (registerMember same_bucket rehash arg val p)))
        = add_mset (new_Member_t (free_store p) arg, val) (mset (storage p)) \<and>
      MemberStorage_get (storage (snd (registerMember same_bucket rehash arg val p))) arg
        = Inr val \<and>
      ((\<forall>arg'. length (entries_for arg' (storage p)) \<le> 1) \<longrightarrow>
       (\<forall>arg'. length (entries_for arg'
                  (storage (snd (registerMember same_bucket rehash arg val p)))) \<le> 1)))"
proof -
  let ?new = "new_Member_t (free_store p) arg"
  let ?st' = "storage (snd (registerMember same_bucket rehash arg val p))"
  have t: "fst (registerMember same_bucket rehash arg val p) = True"
    by (simp add: registerMember_def Let_def)
  have f: "free_store (snd (registerMember same_bucket rehash arg val p)) = Suc (free_store p)"
    by (simp add: registerMember_def Let_def)
  have st': "mset ?st' = mset (subscript_assign same_bucket (storage p) ?new val)"
    using assms by (simp add: registerMember_def Let_def)
  have c: "mset ?st' = add_mset (?new, val) (mset (storage p)) \<or>
    (\<exists>k old. (k, old) \<in> set (storage p) \<and> MemberEqual k ?new \<and>
       mset ?st' = add_mset (k, val) (mset (storage p) - {#(k, old)#}))"
    unfolding st' by (rule subscript_assign_cases)
  have a: "mset ?st' = add_mset (?new, val) (mset (storage p))"
    if e: "entries_for arg (storage p) = []"
    using assms e by (rule storage_registerMember_absent)
  have g: "MemberStorage_get ?st' arg = Inr val" if e: "entries_for arg (storage p) = []"
  proof -
    have "mset (entries_for arg ?st') = {#(?new, val)#}"
      using entries_for_added [OF a [OF e], of arg] e by simp
    then show ?thesis by (rule get_single_entry)
  qed
  have u: "\<forall>arg'. length (entries_for arg' ?st') \<le> 1"
    if e: "entries_for arg (storage p) = []"
      and o: "\<forall>arg'. length (entries_for arg' (storage p)) \<le> 1"
  proof
    fix arg'
    have l: "length (entries_for arg' ?st') = size (mset (entries_for arg' ?st'))"
      by (simp only: size_mset)
    show "length (entries_for arg' ?st') \<le> 1"
    proof (cases "owner_hash arg = owner_hash arg' \<and> slot arg = slot arg'")
      case True
      then have "entries_for arg' (storage p) = []"
        using e entries_for_same_member [of arg arg' "storage p"] by simp
      with True show ?thesis
        unfolding l entries_for_added [OF a [OF e]] by simp
    next
      case False
      from o have "length (entries_for arg' (storage p)) \<le> 1" ..
      with False show ?thesis
        unfolding l entries_for_added [OF a [OF e]] by auto
    qed
  qed
  have r: "MemberEqual ?new ?new" by (simp add: MemberEqual_def isEqual_def)
  from c have x: "\<exists>k. (k, val) \<in> set ?st' \<and> MemberEqual k ?new"
  proof
    assume "mset ?st' = add_mset (?new, val) (mset (storage p))"
    then have "(?new, val) \<in># mset ?st'" by simp
    then have "(?new, val) \<in> set ?st'" by simp
    with r show ?thesis by blast
  next
    assume "\<exists>k old. (k, old) \<in> set (storage p) \<and> MemberEqual k ?new \<and>
       mset ?st' = add_mset (k, val) (mset (storage p) - {#(k, old)#})"
    then obtain k old where e: "MemberEqual k ?new"
      and m: "mset ?st' = add_mset (k, val) (mset (storage p) - {#(k, old)#})" by blast
    from m have "(k, val) \<in># mset ?st'" by simp
    then have "(k, val) \<in> set ?st'" by simp
    with e show ?thesis by blast
  qed
  from t f x c a g u show ?thesis by blast
qed

theorem registerMember_always_true_witness:
  "fst (registerMember (=) (\<lambda>s. s) member_x ''x'' process_start) = True \<and>
   free_store (snd (registerMember (=) (\<lambda>s. s) member_x ''x'' process_start)) = Suc 0 \<and>
   mset (storage (snd (registerMember (=) (\<lambda>s. s) member_x ''x'' process_start)))
     = {#(\<lparr>address = 0, class_hash = 7, member = 0\<rparr>, ''x'')#} \<and>
   MemberStorage_get (storage (snd (registerMember (=) (\<lambda>s. s) member_x ''x'' process_start)))
     member_x = Inr ''x''"
proof -
  have h: "\<forall>s :: string storage. mset ((\<lambda>s. s) s) = mset s" by simp
  have e: "entries_for member_x (storage (process_start :: string process)) = []"
    by (simp add: entries_for_def process_start_def)
  have s: "add_mset (new_Member_t (free_store (process_start :: string process)) member_x, ''x'')
      (mset (storage (process_start :: string process)))
      = {#(\<lparr>address = 0, class_hash = 7, member = 0\<rparr>, ''x'')#}"
    by (simp add: process_start_def new_Member_t_def member_x_def)
  have z: "free_store (process_start :: string process) = 0"
    by (simp add: process_start_def)
  note r = registerMember_always_true [OF h, of "(=)" member_x "''x''" process_start]
  from r have 1: "fst (registerMember (=) (\<lambda>s. s) member_x ''x'' process_start) = True"
    by blast
  from r have "free_store (snd (registerMember (=) (\<lambda>s. s) member_x ''x'' process_start))
     = Suc (free_store (process_start :: string process))"
    by blast
  with z have 2: "free_store (snd (registerMember (=) (\<lambda>s. s) member_x ''x'' process_start))
     = Suc 0" by simp
  from r e have "mset (storage (snd (registerMember (=) (\<lambda>s. s) member_x ''x'' process_start)))
     = add_mset (new_Member_t (free_store (process_start :: string process)) member_x, ''x'')
         (mset (storage (process_start :: string process)))"
    by blast
  then have 3: "mset (storage (snd (registerMember (=) (\<lambda>s. s) member_x ''x'' process_start)))
     = {#(\<lparr>address = 0, class_hash = 7, member = 0\<rparr>, ''x'')#}"
    using s by (rule trans)
  from r e have 4: "MemberStorage_get
     (storage (snd (registerMember (=) (\<lambda>s. s) member_x ''x'' process_start))) member_x
     = Inr ''x''"
    by blast
  from 1 2 3 4 show ?thesis by blast
qed

text \<open>
  Registering \<^verbatim>\<open>&C::x\<close> a second time returns \<^verbatim>\<open>true\<close> again. On a table that compares hash
  codes the second call adds an entry although the member has one, and the member then has
  two; on a table that finds the first entry the call adds none, so its \<^verbatim>\<open>true\<close> does not
  report an insertion.
\<close>

theorem registerMember_twice_counterexample:
  "fst (registerMember (=) (\<lambda>s. s) member_x ''x''
          (snd (registerMember (=) (\<lambda>s. s) member_x ''x'' process_start))) = True \<and>
   length (entries_for member_x
     (storage (snd (registerMember (=) (\<lambda>s. s) member_x ''x''
        (snd (registerMember (=) (\<lambda>s. s) member_x ''x'' process_start)))))) = 2 \<and>
   fst (registerMember (\<lambda>h h'. True) (\<lambda>s. s) member_x ''y''
          (snd (registerMember (\<lambda>h h'. True) (\<lambda>s. s) member_x ''x'' process_start))) = True \<and>
   length (storage (snd (registerMember (\<lambda>h h'. True) (\<lambda>s. s) member_x ''x'' process_start)))
     = 1 \<and>
   length (storage (snd (registerMember (\<lambda>h h'. True) (\<lambda>s. s) member_x ''y''
        (snd (registerMember (\<lambda>h h'. True) (\<lambda>s. s) member_x ''x'' process_start)))))
     = 1"
  by (simp add: registerMember_def process_start_def new_Member_t_def key_found_def
      MemberHasher_def MemberEqual_def isEqual_def entries_for_def get_pred_def member_x_def)

lemma callInitMembers_flag_set:
  "register_once p T \<Longrightarrow> callInitMembers T init p = Inr p"
  by (simp add: callInitMembers_def)

lemma callInitMembers_times_flag_set:
  "register_once p T \<Longrightarrow> callInitMembers_times n T init p = Inr p"
  by (induction n) (simp_all add: callInitMembers_flag_set)

lemma callInitMembers_times_once:
  assumes "0 < n" and "\<not> register_once p T" and "init p = Inr p'"
  shows "callInitMembers_times n T init p
           = Inr (p'\<lparr>register_once := (register_once p')(T := True)\<rparr>)"
proof -
  from assms(1) obtain m where n: "n = Suc m" by (cases n) auto
  from assms(2,3) have c: "callInitMembers T init p
      = Inr (p'\<lparr>register_once := (register_once p')(T := True)\<rparr>)"
    by (simp add: callInitMembers_def)
  show ?thesis unfolding n
    by (simp add: c callInitMembers_times_flag_set)
qed

lemma storage_ADD_MEMBER_absent:
  assumes "\<forall>s. mset (rehash s) = mset s"
    and "entries_for \<lparr>owner_hash = Class, slot = fst m\<rparr> (storage p) = []"
  shows "mset (storage (SERIALIZER_ADD_MEMBER same_bucket rehash Class m p))
     = add_mset (new_Member_t (free_store p) \<lparr>owner_hash = Class, slot = fst m\<rparr>, snd m)
         (mset (storage p))"
  unfolding SERIALIZER_ADD_MEMBER_def using assms by (rule storage_registerMember_absent)

lemma fold_ADD_MEMBER:
  assumes perm: "\<forall>s. mset (rehash s) = mset s"
  shows "distinct (map fst Members) \<Longrightarrow>
   \<forall>m \<in> set Members. entries_for \<lparr>owner_hash = Class, slot = fst m\<rparr> (storage p) = [] \<Longrightarrow>
   length (storage (fold (SERIALIZER_ADD_MEMBER same_bucket rehash Class) Members p))
     = length (storage p) + length Members \<and>
   (\<forall>m \<in> set Members. \<exists>k.
      entries_for \<lparr>owner_hash = Class, slot = fst m\<rparr>
        (storage (fold (SERIALIZER_ADD_MEMBER same_bucket rehash Class) Members p))
        = [(k, snd m)]) \<and>
   (\<forall>arg. (\<forall>m \<in> set Members. \<not> (owner_hash arg = Class \<and> slot arg = fst m)) \<longrightarrow>
      mset (entries_for arg
              (storage (fold (SERIALIZER_ADD_MEMBER same_bucket rehash Class) Members p)))
        = mset (entries_for arg (storage p)))"
proof (induction Members arbitrary: p)
  case Nil
  show ?case by simp
next
  case (Cons m ms)
  let ?p1 = "SERIALIZER_ADD_MEMBER same_bucket rehash Class m p"
  let ?arg = "\<lparr>owner_hash = Class, slot = fst m\<rparr>"
  let ?k = "new_Member_t (free_store p) ?arg"
  let ?end = "fold (SERIALIZER_ADD_MEMBER same_bucket rehash Class) ms ?p1"
  from Cons.prems have e: "entries_for ?arg (storage p) = []" by simp
  have s1: "mset (storage ?p1) = add_mset (?k, snd m) (mset (storage p))"
    using perm e by (rule storage_ADD_MEMBER_absent)
  have step: "mset (entries_for arg (storage ?p1))
      = mset (entries_for arg (storage p)) +
        (if Class = owner_hash arg \<and> fst m = slot arg then {#(?k, snd m)#} else {#})" for arg
    using entries_for_added [OF s1, of arg] by simp
  from s1 have "size (mset (storage ?p1)) = Suc (size (mset (storage p)))" by simp
  then have len1: "length (storage ?p1) = Suc (length (storage p))" by (simp only: size_mset)
  from Cons.prems have d: "distinct (map fst ms)" and nm: "fst m \<notin> fst ` set ms" by simp_all
  have abs: "\<forall>m' \<in> set ms. entries_for \<lparr>owner_hash = Class, slot = fst m'\<rparr> (storage ?p1) = []"
  proof
    fix m' assume m': "m' \<in> set ms"
    then have "fst m \<noteq> fst m'" using nm by force
    moreover from Cons.prems m'
    have "entries_for \<lparr>owner_hash = Class, slot = fst m'\<rparr> (storage p) = []" by simp
    ultimately have "mset (entries_for \<lparr>owner_hash = Class, slot = fst m'\<rparr> (storage ?p1)) = {#}"
      by (simp add: step)
    then show "entries_for \<lparr>owner_hash = Class, slot = fst m'\<rparr> (storage ?p1) = []"
      by (simp only: mset_zero_iff)
  qed
  note IH = Cons.IH [OF d abs]
  have f: "fold (SERIALIZER_ADD_MEMBER same_bucket rehash Class) (m # ms) p = ?end" by simp
  from IH have len: "length (storage ?end) = length (storage p) + length (m # ms)"
    by (simp add: len1)
  from IH have others: "\<forall>arg. (\<forall>m' \<in> set ms. \<not> (owner_hash arg = Class \<and> slot arg = fst m')) \<longrightarrow>
      mset (entries_for arg (storage ?end)) = mset (entries_for arg (storage ?p1))" by blast
  have "\<forall>m' \<in> set ms. \<not> (owner_hash ?arg = Class \<and> slot ?arg = fst m')"
    using nm by (auto simp add: image_iff)
  with others have "mset (entries_for ?arg (storage ?end)) = mset (entries_for ?arg (storage ?p1))"
    by blast
  also have "\<dots> = {#(?k, snd m)#}" using e by (simp add: step)
  finally have "entries_for ?arg (storage ?end) = [(?k, snd m)]"
    by (simp only: mset_single_iff)
  then have hd: "\<exists>k. entries_for ?arg (storage ?end) = [(k, snd m)]" by blast
  from IH have tl: "\<forall>m' \<in> set ms. \<exists>k. entries_for \<lparr>owner_hash = Class, slot = fst m'\<rparr>
      (storage ?end) = [(k, snd m')]"
    by blast
  have rest: "\<forall>arg. (\<forall>m' \<in> set (m # ms). \<not> (owner_hash arg = Class \<and> slot arg = fst m')) \<longrightarrow>
      mset (entries_for arg (storage ?end)) = mset (entries_for arg (storage p))"
  proof (intro allI impI)
    fix arg :: member_ptr
    assume a: "\<forall>m' \<in> set (m # ms). \<not> (owner_hash arg = Class \<and> slot arg = fst m')"
    then have "mset (entries_for arg (storage ?end)) = mset (entries_for arg (storage ?p1))"
      using others by simp
    also from a have "\<dots> = mset (entries_for arg (storage p))" by (auto simp add: step)
    finally show "mset (entries_for arg (storage ?end)) = mset (entries_for arg (storage p))" .
  qed
  from len hd tl rest show ?case unfolding f by simp
qed

text \<open>
  Claim C6. Any number \<open>n > 0\<close> of calls of \<^verbatim>\<open>callInitMembers\<close> for a class, in a process
  where the class's flag is unset and its table empty, all return normally and leave the
  process exactly as one call does: \<^verbatim>\<open>InitMembers\<close> has run once. The table then has one
  entry for each declared member, holding the member's name, and no other entry, whatever
  the table tells apart by hash and in whatever order it keeps its entries.
\<close>

theorem callInitMembers_runs_once:
  assumes "0 < n"
    and "\<not> register_once p T"
    and "storage p = []"
    and "distinct (map fst Members)"
    and "\<forall>s. mset (rehash s) = mset s"
  shows "\<exists>p'. callInitMembers_times n T (InitMembers same_bucket rehash Class Members) p = Inr p' \<and>
           callInitMembers T (InitMembers same_bucket rehash Class Members) p = Inr p' \<and>
           storage p'
             = storage (fold (SERIALIZER_ADD_MEMBER same_bucket rehash Class) Members p) \<and>
           length (storage p') = length Members \<and>
           (\<forall>m \<in> set Members. \<exists>k.
              entries_for \<lparr>owner_hash = Class, slot = fst m\<rparr> (storage p') = [(k, snd m)])"
proof -
  let ?init = "InitMembers same_bucket rehash Class Members"
  let ?q = "fold (SERIALIZER_ADD_MEMBER same_bucket rehash Class) Members p"
  let ?p' = "?q\<lparr>register_once := (register_once ?q)(T := True)\<rparr>"
  have i: "?init p = Inr ?q" by (simp add: InitMembers_def)
  have many: "callInitMembers_times n T ?init p = Inr ?p'"
    using assms(1,2) i by (rule callInitMembers_times_once)
  have one: "callInitMembers T ?init p = Inr ?p'"
    using assms(2) i by (simp add: callInitMembers_def)
  have "\<forall>m \<in> set Members. entries_for \<lparr>owner_hash = Class, slot = fst m\<rparr> (storage p) = []"
    using assms(3) by (simp add: entries_for_def)
  from fold_ADD_MEMBER [OF assms(5,4) this, of same_bucket] assms(3)
  have "length (storage ?p') = length Members \<and>
        (\<forall>m \<in> set Members. \<exists>k.
           entries_for \<lparr>owner_hash = Class, slot = fst m\<rparr> (storage ?p') = [(k, snd m)])"
    by simp
  with many one show ?thesis by simp
qed

theorem callInitMembers_runs_once_witness:
  "\<exists>p'. callInitMembers_times 3 7 (InitMembers (=) (\<lambda>s. s) 7 sample_members) process_start
           = Inr p' \<and>
         callInitMembers 7 (InitMembers (=) (\<lambda>s. s) 7 sample_members) process_start = Inr p' \<and>
         storage p' = sample_storage \<and>
         length (storage p') = 3"
proof -
  have n: "(0::nat) < 3" by simp
  have f: "\<not> register_once (process_start :: string process) 7"
    by (simp add: process_start_def)
  have e: "storage (process_start :: string process) = []"
    by (simp add: process_start_def)
  have d: "distinct (map fst sample_members)"
    by (simp add: sample_members_def)
  have h: "\<forall>s :: string storage. mset ((\<lambda>s. s) s) = mset s" by simp
  have l: "length sample_members = 3" by (simp add: sample_members_def)
  from callInitMembers_runs_once [OF n f e d h, of "(=)" 7]
  show ?thesis unfolding sample_storage_def l by blast
qed

section \<open>The field helpers\<close>

text \<open>
  Claim C3, as the code has it. For a member pointer that was never registered,
  \<^verbatim>\<open>to_json_simple\<close> catches the exception of \<^verbatim>\<open>get\<close>; \<^verbatim>\<open>handleException\<close> does not rethrow,
  so the call returns normally and the target document is what it was.
\<close>

theorem unregistered_write_swallowed:
  "MemberStorage_get st arg = Inl e \<Longrightarrow>
   to_json_simple st to_json target TargetType arg inst h = Inr target"
  by (simp add: to_json_simple_def try_catch_def handleException_def)

theorem unregistered_write_swallowed_witness:
  "MemberStorage_get sample_storage member_q = Inl No_storage \<and>
   to_json_simple sample_storage sample_to_json (JObject [(''x'', JNumber 3)]) 0 member_q
     sample_object sample_heap = Inr (JObject [(''x'', JNumber 3)])"
proof -
  have h: "MemberStorage_get sample_storage member_q = Inl No_storage" by simp
  from unregistered_write_swallowed [OF h] show ?thesis using h by simp
qed

text \<open>
  On the unregistered member \<^verbatim>\<open>q\<close> the lookup throws, and \<^verbatim>\<open>to_json_simple\<close> returns to its
  caller with the document unchanged: no condition reaches the caller.
\<close>

theorem unregistered_write_surfaces_counterexample:
  "MemberStorage_get sample_storage member_q = Inl No_storage \<and>
   to_json_simple sample_storage sample_to_json JNull 0 member_q sample_object sample_heap
     = Inr JNull"
  by (simp add: to_json_simple_def try_catch_def handleException_def)

text \<open>
  Claim C10. \<^verbatim>\<open>get_json_for_property\<close> always returns a document: the null document when
  the member is unregistered or the source has no child under the member's key, and
  otherwise the child stored under the key.
\<close>

theorem get_json_for_property_never_throws:
  "(\<exists>j. get_json_for_property st source arg = Inr j) \<and>
   ((\<exists>e. MemberStorage_get st arg = Inl e) \<longrightarrow>
      get_json_for_property st source arg = Inr JNull) \<and>
   (\<forall>name. MemberStorage_get st arg = Inr name \<longrightarrow>
      ((\<forall>kvs. source = JObject kvs \<longrightarrow> map_of kvs name = None) \<longrightarrow>
         get_json_for_property st source arg = Inr JNull) \<and>
      (\<forall>kvs child. source = JObject kvs \<longrightarrow> map_of kvs name = Some child \<longrightarrow>
         get_json_for_property st source arg = Inr child))"
  by (auto simp add: get_json_for_property_def try_catch_def handleException_def json_at_def
      split: sum.splits json.splits option.splits failure.splits)

theorem get_json_for_property_never_throws_witness:
  "get_json_for_property sample_storage (JObject [(''u'', JString ''b'')]) member_q = Inr JNull \<and>
   get_json_for_property sample_storage (JObject [(''u'', JString ''b'')]) member_x = Inr JNull \<and>
   get_json_for_property sample_storage (JObject [(''u'', JString ''b'')]) member_u
     = Inr (JString ''b'')"
  using get_json_for_property_never_throws [of sample_storage "JObject [(''u'', JString ''b'')]" member_q]
    get_json_for_property_never_throws [of sample_storage "JObject [(''u'', JString ''b'')]" member_x]
    get_json_for_property_never_throws [of sample_storage "JObject [(''u'', JString ''b'')]" member_u]
  by simp

text \<open>
  Claim C8. For a registered variant member holding alternative \<open>B\<close>, \<^verbatim>\<open>to_json_simple\<close>
  annotated with another alternative \<open>A\<close> runs into \<^verbatim>\<open>std::bad_variant_access\<close> and leaves
  the target document as it was, with no key added; annotated with \<open>B\<close> it stores the
  document made from the value of \<open>B\<close> under the member's registered key (the target being
  a null document or an object, and the value convertible).
\<close>

theorem variant_arm_write:
  assumes "MemberStorage_get st arg = Inr name"
    and "inst (slot arg) = Variant B v"
    and "A \<noteq> B"
  shows "getMemberRef A arg inst = Inl (Throw Bad_variant_access) \<and>
         to_json_simple st to_json target A arg inst h = Inr target \<and>
         (\<forall>j. to_json v = Inr j \<longrightarrow> target = JNull \<or> (\<exists>kvs. target = JObject kvs) \<longrightarrow>
            (\<exists>target'. to_json_simple st to_json target B arg inst h = Inr target' \<and>
               json_at target' name = Inr j))"
  using assms
  by (auto simp add: to_json_simple_def getMemberRef_def try_catch_def handleException_def
      json_subscript_assign_def json_at_def update_conv')

theorem variant_arm_write_witness:
  "MemberStorage_get sample_storage member_u = Inr ''u'' \<and>
   sample_object (slot member_u) = Variant 1 (String_val ''b'') \<and> (0::nat) \<noteq> 1 \<and>
   getMemberRef 0 member_u sample_object = Inl (Throw Bad_variant_access) \<and>
   to_json_simple sample_storage sample_to_json JNull 0 member_u sample_object sample_heap
     = Inr JNull \<and>
   to_json_simple sample_storage sample_to_json JNull 1 member_u sample_object sample_heap
     = Inr (JObject [(''u'', JString ''b'')])"
proof -
  have r: "MemberStorage_get sample_storage member_u = Inr ''u''" by simp
  have s: "sample_object (slot member_u) = Variant 1 (String_val ''b'')"
    by (simp add: sample_object_def)
  have n: "(0::nat) \<noteq> 1" by simp
  have w: "to_json_simple sample_storage sample_to_json JNull 1 member_u sample_object sample_heap
     = Inr (JObject [(''u'', JString ''b'')])"
    by (simp add: to_json_simple_def getMemberRef_def try_catch_def sample_object_def
        json_subscript_assign_def)
  from variant_arm_write [where st = sample_storage and arg = member_u and name = "''u''"
      and inst = sample_object and B = 1 and v = "String_val ''b''" and A = 0
      and to_json = sample_to_json and target = JNull and h = sample_heap] r s n w
  show ?thesis by simp
qed

text \<open>
  Claim C7. For a registered member, \<^verbatim>\<open>from_json_simple\<close> on a document without the member's
  key returns normally and leaves the object and the heap as they were; so it does when the
  child under the key does not convert to the member's value.
\<close>

theorem missing_key_leaves_member:
  assumes "MemberStorage_get st arg = Inr name"
  shows "((\<forall>kvs. source = JObject kvs \<longrightarrow> map_of kvs name = None) \<longrightarrow>
            from_json_simple st get_to source TargetType arg inst h = Inr (inst, h)) \<and>
         (\<forall>child old e. json_at source name = Inr child \<longrightarrow>
            member_value TargetType arg inst h = Inr old \<longrightarrow> get_to child old = Inl e \<longrightarrow>
            from_json_simple st get_to source TargetType arg inst h = Inr (inst, h))"
  using assms
  by (auto simp add: from_json_simple_def try_catch_def handleException_def json_at_def
      member_value_def split: sum.splits json.splits option.splits failure.splits)

theorem missing_key_leaves_member_witness:
  "MemberStorage_get sample_storage member_x = Inr ''x'' \<and>
   from_json_simple sample_storage sample_get_to (JObject [(''u'', JString ''b'')]) 0 member_x
     sample_object sample_heap = Inr (sample_object, sample_heap) \<and>
   json_at (JObject [(''x'', JString ''b'')]) ''x'' = Inr (JString ''b'') \<and>
   member_value 0 member_x sample_object sample_heap = Inr (Int_val 3) \<and>
   sample_get_to (JString ''b'') (Int_val 3) = Inl Json_type_error \<and>
   from_json_simple sample_storage sample_get_to (JObject [(''x'', JString ''b'')]) 0 member_x
     sample_object sample_heap = Inr (sample_object, sample_heap)"
proof -
  have r: "MemberStorage_get sample_storage member_x = Inr ''x''" by simp
  have a: "json_at (JObject [(''x'', JString ''b'')]) ''x'' = Inr (JString ''b'')"
    by (simp add: json_at_def)
  have m: "member_value 0 member_x sample_object sample_heap = Inr (Int_val 3)"
    by (simp add: member_value_def getMemberRef_def sample_object_def)
  have g: "sample_get_to (JString ''b'') (Int_val 3) = Inl Json_type_error" by simp
  from missing_key_leaves_member [OF r, of "JObject [(''u'', JString ''b'')]" sample_get_to 0
      sample_object sample_heap]
  have 1: "from_json_simple sample_storage sample_get_to (JObject [(''u'', JString ''b'')]) 0
     member_x sample_object sample_heap = Inr (sample_object, sample_heap)" by simp
  from missing_key_leaves_member [OF r, of "JObject [(''x'', JString ''b'')]" sample_get_to 0
      sample_object sample_heap] a m g
  have 2: "from_json_simple sample_storage sample_get_to (JObject [(''x'', JString ''b'')]) 0
     member_x sample_object sample_heap = Inr (sample_object, sample_heap)" by blast
  from r a m g 1 2 show ?thesis by simp
qed

text \<open>
  Claim C9, as the code has it. For a registered member that is a handle to a pointee
  holding \<open>v\<close>: \<^verbatim>\<open>to_json_simple\<close> stores the document made from \<open>v\<close> under the member's
  key, and \<^verbatim>\<open>from_json_simple\<close> assigns the value converted from the child under the key to
  the pointee, leaving the handle itself as it was; both do exactly what they do when the
  member holds \<open>v\<close> directly, where the value is written into the member.
\<close>

theorem handle_reads_through:
  assumes "inst (slot arg) = Shared_ptr (Some a)" and "h a = Some v"
  shows "to_json_simple st to_json target T arg inst h
           = to_json_simple st to_json target T' arg (inst(slot arg := Plain v)) h \<and>
         (\<exists>v'. from_json_simple st get_to source T' arg (inst(slot arg := Plain v)) h
                  = Inr (inst(slot arg := Plain v'), h) \<and>
               from_json_simple st get_to source T arg inst h = Inr (inst, h(a \<mapsto> v'))) \<and>
         (\<forall>name. MemberStorage_get st arg = Inr name \<longrightarrow>
            (\<forall>j. to_json v = Inr j \<longrightarrow> target = JNull \<or> (\<exists>kvs. target = JObject kvs) \<longrightarrow>
               (\<exists>target'. to_json_simple st to_json target T arg inst h = Inr target' \<and>
                  json_at target' name = Inr j)) \<and>
            (\<forall>child v'. json_at source name = Inr child \<longrightarrow> get_to child v = Inr v' \<longrightarrow>
               from_json_simple st get_to source T arg inst h = Inr (inst, h(a \<mapsto> v')) \<and>
               from_json_simple st get_to source T' arg (inst(slot arg := Plain v)) h
                 = Inr (inst(slot arg := Plain v'), h)))"
proof -
  have t: "h(a \<mapsto> v) = h" using assms(2) by (rule map_upd_triv)
  have g: "getMemberRef T arg inst = Inr (Ref_pointee a)"
    using assms(1) by (simp add: getMemberRef_def)
  have w: "to_json_simple st to_json target T arg inst h
           = to_json_simple st to_json target T' arg (inst(slot arg := Plain v)) h"
    using assms
    by (cases "MemberStorage_get st arg") (simp_all add: to_json_simple_def getMemberRef_def)
  have r: "\<exists>v'. from_json_simple st get_to source T' arg (inst(slot arg := Plain v)) h
                  = Inr (inst(slot arg := Plain v'), h) \<and>
               from_json_simple st get_to source T arg inst h = Inr (inst, h(a \<mapsto> v'))"
    using assms t
    by (auto simp add: from_json_simple_def getMemberRef_def try_catch_def handleException_def
        split: sum.splits)
  have p: "\<exists>target'. to_json_simple st to_json target T arg inst h = Inr target' \<and>
             json_at target' name = Inr j"
    if n: "MemberStorage_get st arg = Inr name" and j: "to_json v = Inr j"
      and o: "target = JNull \<or> (\<exists>kvs. target = JObject kvs)" for name j
    using o
    by (auto simp add: to_json_simple_def try_catch_def n g assms(2) j
        json_subscript_assign_def json_at_def update_conv')
  have q: "from_json_simple st get_to source T arg inst h = Inr (inst, h(a \<mapsto> v')) \<and>
           from_json_simple st get_to source T' arg (inst(slot arg := Plain v)) h
             = Inr (inst(slot arg := Plain v'), h)"
    if n: "MemberStorage_get st arg = Inr name" and c: "json_at source name = Inr child"
      and v': "get_to child v = Inr v'" for name child v'
    by (simp add: from_json_simple_def try_catch_def n c assms v' getMemberRef_def)
  from w r p q show ?thesis by blast
qed

theorem handle_reads_through_witness:
  "sample_object (slot member_p) = Shared_ptr (Some 100) \<and> sample_heap 100 = Some (Int_val 9) \<and>
   to_json_simple sample_storage sample_to_json JNull 0 member_p sample_object sample_heap
     = Inr (JObject [(''p'', JNumber 9)]) \<and>
   to_json_simple sample_storage sample_to_json JNull 0 member_p
     (sample_object(slot member_p := Plain (Int_val 9))) sample_heap
     = Inr (JObject [(''p'', JNumber 9)]) \<and>
   from_json_simple sample_storage sample_get_to (JObject [(''p'', JNumber 5)]) 0 member_p
     sample_object sample_heap = Inr (sample_object, sample_heap(100 \<mapsto> Int_val 5)) \<and>
   from_json_simple sample_storage sample_get_to (JObject [(''p'', JNumber 5)]) 0 member_p
     (sample_object(slot member_p := Plain (Int_val 9))) sample_heap
     = Inr (sample_object(slot member_p := Plain (Int_val 5)), sample_heap)"
proof -
  have s: "sample_object (slot member_p) = Shared_ptr (Some 100)"
    by (simp add: sample_object_def)
  have p: "sample_heap 100 = Some (Int_val 9)" by (simp add: sample_heap_def)
  have n: "MemberStorage_get sample_storage member_p = Inr ''p''" by simp
  have d: "to_json_simple sample_storage sample_to_json JNull 0 member_p
     (sample_object(slot member_p := Plain (Int_val 9))) sample_heap
     = Inr (JObject [(''p'', JNumber 9)])"
    by (simp add: to_json_simple_def getMemberRef_def try_catch_def json_subscript_assign_def)
  have c: "json_at (JObject [(''p'', JNumber 5)]) ''p'' = Inr (JNumber 5)"
    by (simp add: json_at_def)
  have g: "sample_get_to (JNumber 5) (Int_val 9) = Inr (Int_val 5)" by simp
  note t = handle_reads_through [where inst = sample_object and arg = member_p and a = 100
      and h = sample_heap and v = "Int_val 9" and st = sample_storage
      and to_json = sample_to_json and target = JNull and T = 0 and T' = 0
      and get_to = sample_get_to and source = "JObject [(''p'', JNumber 5)]", OF s p]
  from t d have w: "to_json_simple sample_storage sample_to_json JNull 0 member_p sample_object
     sample_heap = Inr (JObject [(''p'', JNumber 9)])" by simp
  from t n c g have r: "from_json_simple sample_storage sample_get_to
       (JObject [(''p'', JNumber 5)]) 0 member_p sample_object sample_heap
       = Inr (sample_object, sample_heap(100 \<mapsto> Int_val 5)) \<and>
     from_json_simple sample_storage sample_get_to (JObject [(''p'', JNumber 5)]) 0 member_p
       (sample_object(slot member_p := Plain (Int_val 9))) sample_heap
       = Inr (sample_object(slot member_p := Plain (Int_val 5)), sample_heap)"
    by blast
  from s p w d r show ?thesis by blast
qed

text \<open>
  On a null handle both helpers run into the unchecked dereference: the outcome is undefined
  behaviour, not a condition raised by the code.
\<close>

theorem null_handle_counterexample:
  "default_object (slot member_p) = Shared_ptr None \<and>
   to_json_simple sample_storage sample_to_json JNull 0 member_p default_object sample_heap
     = Inl Undefined_behaviour \<and>
   from_json_simple sample_storage sample_get_to (JObject [(''p'', JNumber 9)]) 0 member_p
     default_object sample_heap = Inl Undefined_behaviour"
  by (simp add: to_json_simple_def from_json_simple_def getMemberRef_def try_catch_def
      default_object_def json_at_def)

section \<open>Round trip\<close>

lemma json_subscript_assign_object:
  assumes "target = JNull \<or> (\<exists>kvs. target = JObject kvs)"
  shows "\<exists>kvs'. json_subscript_assign target name j = Inr (JObject kvs') \<and>
           map_of kvs' name = Some j \<and>
           (\<forall>k j'. k \<noteq> name \<longrightarrow> json_at target k = Inr j' \<longrightarrow> map_of kvs' k = Some j')"
  using assms
  by (auto simp add: json_subscript_assign_def json_at_def update_conv' split: option.splits)

lemma to_json_simple_step:
  assumes "MemberStorage_get st arg = Inr name"
    and "member_value T arg x h = Inr v"
    and "to_json v = Inr j"
    and "target = JNull \<or> (\<exists>kvs. target = JObject kvs)"
  shows "\<exists>target1. to_json_simple st to_json target T arg x h = Inr target1 \<and>
           (\<exists>kvs. target1 = JObject kvs) \<and>
           json_at target1 name = Inr j \<and>
           (\<forall>k j'. k \<noteq> name \<longrightarrow> json_at target k = Inr j' \<longrightarrow> json_at target1 k = Inr j')"
proof -
  from json_subscript_assign_object [OF assms(4), of name j]
  obtain kvs' where a: "json_subscript_assign target name j = Inr (JObject kvs')"
    and b: "map_of kvs' name = Some j"
    and c: "\<forall>k j'. k \<noteq> name \<longrightarrow> json_at target k = Inr j' \<longrightarrow> map_of kvs' k = Some j'"
    by blast
  from assms(2) obtain r where r: "getMemberRef T arg x = Inr r" and l: "load x h r = Inr v"
    by (auto simp add: member_value_def split: sum.splits)
  have "to_json_simple st to_json target T arg x h = Inr (JObject kvs')"
    by (simp add: to_json_simple_def try_catch_def assms(1,3) r l a)
  moreover have "json_at (JObject kvs') name = Inr j" by (simp add: json_at_def b)
  moreover have "\<forall>k j'. k \<noteq> name \<longrightarrow> json_at target k = Inr j' \<longrightarrow>
      json_at (JObject kvs') k = Inr j'"
    using c by (simp add: json_at_def)
  ultimately show ?thesis by blast
qed

lemma toDocument_keys:
  assumes "\<forall>f \<in> set fs. MemberStorage_get st (fst f) = Inr (K f)"
    and "\<forall>f \<in> set fs. \<exists>v. member_value (snd f) (fst f) x h = Inr v \<and> to_json v = Inr (J f)"
    and "\<forall>f \<in> set fs. \<forall>g \<in> set fs. K f = K g \<longrightarrow> J f = J g"
    and "target = JNull \<or> (\<exists>kvs. target = JObject kvs)"
  shows "\<exists>doc. toDocument st to_json fs x h target = Inr doc \<and>
           (\<forall>f \<in> set fs. json_at doc (K f) = Inr (J f)) \<and>
           (\<forall>k j. k \<notin> K ` set fs \<longrightarrow> json_at target k = Inr j \<longrightarrow> json_at doc k = Inr j)"
  using assms
proof (induction fs arbitrary: target)
  case Nil
  show ?case by simp
next
  case (Cons f fs)
  from Cons.prems(1) have n: "MemberStorage_get st (fst f) = Inr (K f)" by simp
  from Cons.prems(2) obtain v where v: "member_value (snd f) (fst f) x h = Inr v"
    and j: "to_json v = Inr (J f)" by auto
  from to_json_simple_step [where to_json = to_json, OF n v j Cons.prems(4)]
  obtain target1 where s: "to_json_simple st to_json target (snd f) (fst f) x h = Inr target1"
    and o: "\<exists>kvs. target1 = JObject kvs"
    and a: "json_at target1 (K f) = Inr (J f)"
    and k: "\<forall>k j'. k \<noteq> K f \<longrightarrow> json_at target k = Inr j' \<longrightarrow> json_at target1 k = Inr j'"
    by blast
  have p1: "\<forall>g \<in> set fs. MemberStorage_get st (fst g) = Inr (K g)"
    using Cons.prems(1) by simp
  have p2: "\<forall>g \<in> set fs. \<exists>v. member_value (snd g) (fst g) x h = Inr v \<and> to_json v = Inr (J g)"
    using Cons.prems(2) by simp
  have p3: "\<forall>g \<in> set fs. \<forall>g' \<in> set fs. K g = K g' \<longrightarrow> J g = J g'"
  proof (intro ballI impI)
    fix g g' assume "g \<in> set fs" and "g' \<in> set fs" and e: "K g = K g'"
    then have "g \<in> set (f # fs)" and "g' \<in> set (f # fs)" by simp_all
    with Cons.prems(3) e show "J g = J g'" by blast
  qed
  from o have p4: "target1 = JNull \<or> (\<exists>kvs. target1 = JObject kvs)" by simp
  from Cons.IH [OF p1 p2 p3 p4]
  obtain doc where D: "toDocument st to_json fs x h target1 = Inr doc \<and>
      (\<forall>g \<in> set fs. json_at doc (K g) = Inr (J g)) \<and>
      (\<forall>k j. k \<notin> K ` set fs \<longrightarrow> json_at target1 k = Inr j \<longrightarrow> json_at doc k = Inr j)" ..
  from D have d: "toDocument st to_json fs x h target1 = Inr doc" by (rule conjunct1)
  from D have P: "\<forall>g \<in> set fs. json_at doc (K g) = Inr (J g)" by (elim conjE)
  from D have Q: "\<forall>k j. k \<notin> K ` set fs \<longrightarrow> json_at target1 k = Inr j \<longrightarrow>
      json_at doc k = Inr j" by (elim conjE)
  have r: "toDocument st to_json (f # fs) x h target = Inr doc" by (simp add: s d)
  have Pf: "json_at doc (K f) = Inr (J f)"
  proof (cases "K f \<in> K ` set fs")
    case True
    then obtain g where g: "g \<in> set fs" and e: "K f = K g" by (rule imageE)
    have "f \<in> set (f # fs)" and "g \<in> set (f # fs)" using g by simp_all
    with Cons.prems(3) e have "J f = J g" by blast
    moreover from P g have "json_at doc (K g) = Inr (J g)" by (rule bspec)
    ultimately show ?thesis using e by simp
  next
    case False
    from Q have "K f \<notin> K ` set fs \<longrightarrow> json_at target1 (K f) = Inr (J f) \<longrightarrow>
        json_at doc (K f) = Inr (J f)" by (elim allE)
    with False a show ?thesis by (elim impE)
  qed
  have P': "\<forall>g \<in> set (f # fs). json_at doc (K g) = Inr (J g)"
  proof
    fix g assume "g \<in> set (f # fs)"
    then have "g = f \<or> g \<in> set fs" by simp
    then show "json_at doc (K g) = Inr (J g)"
    proof
      assume "g = f" with Pf show ?thesis by (simp only:)
    next
      assume "g \<in> set fs" with P show ?thesis by (rule bspec)
    qed
  qed
  have Q': "\<forall>k j. k \<notin> K ` set (f # fs) \<longrightarrow> json_at target k = Inr j \<longrightarrow> json_at doc k = Inr j"
  proof (intro allI impI)
    fix k' j'
    assume out: "k' \<notin> K ` set (f # fs)" and t: "json_at target k' = Inr j'"
    from out have ne: "k' \<noteq> K f" and nfs: "k' \<notin> K ` set fs" by simp_all
    from k ne t have "json_at target1 k' = Inr j'" by (elim allE impE)
    with Q nfs show "json_at doc k' = Inr j'" by (elim allE impE)
  qed
  from r P' Q' show ?case by (intro exI conjI)
qed

lemma from_json_simple_step:
  assumes "MemberStorage_get st arg = Inr name"
    and "json_at source name = Inr child"
    and "getMemberRef T arg y = Inr r"
    and "load y h r = Inr old"
    and "get_to child old = Inr v"
  shows "from_json_simple st get_to source T arg y h = Inr (store y h r v)"
  using assms by (simp add: from_json_simple_def try_catch_def)


lemma getMemberRef_cases:
  assumes "getMemberRef T arg y = Inr r"
  shows "(\<exists>w. y (slot arg) = Plain w \<and> r = Ref_member (slot arg)) \<or>
         (\<exists>w. y (slot arg) = Variant T w \<and> r = Ref_arm (slot arg)) \<or>
         (\<exists>a. y (slot arg) = Shared_ptr (Some a) \<and> r = Ref_pointee a)"
  using assms
  by (cases "y (slot arg)") (auto simp add: getMemberRef_def split: if_splits option.splits)

lemma getMemberRef_store:
  assumes "getMemberRef T arg y = Inr r"
  shows "getMemberRef T' arg' (fst (store y h r v)) = getMemberRef T' arg' y"
  using getMemberRef_cases [OF assms]
  by (auto simp add: getMemberRef_def)

lemma load_store_same:
  assumes "getMemberRef T arg y = Inr r"
  shows "load (fst (store y h r v)) (snd (store y h r v)) r = Inr v"
  using getMemberRef_cases [OF assms] by auto

lemma load_store_other:
  assumes "getMemberRef T arg y = Inr r" and "r' \<noteq> r"
  shows "load (fst (store y h r v)) (snd (store y h r v)) r' = load y h r'"
  using getMemberRef_cases [OF assms(1)] assms(2)
  by (cases r') (auto split: if_splits)

lemma fromDocument_refs:
  assumes "\<forall>f \<in> set fs. MemberStorage_get st (fst f) = Inr (K f)"
    and "\<forall>f \<in> set fs. json_at source (K f) = Inr (J f)"
    and "\<forall>f \<in> set fs. getMemberRef (snd f) (fst f) y = Inr (R f)"
    and "\<forall>f \<in> set fs. \<exists>w. load y h (R f) = Inr w \<and> get_to (J f) w = Inr (V f)"
    and "inj_on R (set fs)"
    and "distinct fs"
  shows "\<exists>y' h'. fromDocument st get_to fs source y h = Inr (y', h') \<and>
           (\<forall>T arg. getMemberRef T arg y' = getMemberRef T arg y) \<and>
           (\<forall>f \<in> set fs. load y' h' (R f) = Inr (V f)) \<and>
           (\<forall>r. r \<notin> R ` set fs \<longrightarrow> load y' h' r = load y h r)"
  using assms
proof (induction fs arbitrary: y h)
  case Nil
  show ?case by simp
next
  case (Cons f fs)
  let ?y1 = "fst (store y h (R f) (V f))"
  let ?h1 = "snd (store y h (R f) (V f))"
  from Cons.prems(1) have n: "MemberStorage_get st (fst f) = Inr (K f)" by simp
  from Cons.prems(2) have c: "json_at source (K f) = Inr (J f)" by simp
  from Cons.prems(3) have r: "getMemberRef (snd f) (fst f) y = Inr (R f)" by simp
  from Cons.prems(4) obtain w where l: "load y h (R f) = Inr w"
    and g: "get_to (J f) w = Inr (V f)" by auto
  have s: "from_json_simple st get_to source (snd f) (fst f) y h = Inr (?y1, ?h1)"
    using from_json_simple_step [where get_to = get_to, OF n c r l g] by simp
  have refs1: "getMemberRef T arg ?y1 = getMemberRef T arg y" for T arg
    by (rule getMemberRef_store [OF r])
  have other1: "load ?y1 ?h1 r' = load y h r'" if "r' \<noteq> R f" for r'
    using r that by (rule load_store_other)
  have same1: "load ?y1 ?h1 (R f) = Inr (V f)"
    by (rule load_store_same [OF r])
  have nf: "R f \<notin> R ` set fs"
  proof
    assume "R f \<in> R ` set fs"
    then obtain g where g: "g \<in> set fs" and e: "R f = R g" by (rule imageE)
    from Cons.prems(5) e have "f = g" by (rule inj_onD) (simp_all add: g)
    with g Cons.prems(6) show False by simp
  qed
  have p1: "\<forall>g \<in> set fs. MemberStorage_get st (fst g) = Inr (K g)"
    using Cons.prems(1) by simp
  have p2: "\<forall>g \<in> set fs. json_at source (K g) = Inr (J g)"
    using Cons.prems(2) by simp
  have p3: "\<forall>g \<in> set fs. getMemberRef (snd g) (fst g) ?y1 = Inr (R g)"
    using Cons.prems(3) by (simp add: refs1)
  have p4: "\<forall>g \<in> set fs. \<exists>w. load ?y1 ?h1 (R g) = Inr w \<and> get_to (J g) w = Inr (V g)"
  proof
    fix g assume gs: "g \<in> set fs"
    with nf have "R g \<noteq> R f" by (metis imageI)
    then have "load ?y1 ?h1 (R g) = load y h (R g)" by (rule other1)
    with Cons.prems(4) gs show "\<exists>w. load ?y1 ?h1 (R g) = Inr w \<and> get_to (J g) w = Inr (V g)"
      by simp
  qed
  from Cons.prems(5) have p5: "inj_on R (set fs)" by (rule inj_on_subset) auto
  from Cons.prems(6) have p6: "distinct fs" by simp
  from Cons.IH [OF p1 p2 p3 p4 p5 p6]
  obtain y' h' where d: "fromDocument st get_to fs source ?y1 ?h1 = Inr (y', h')"
    and A: "\<forall>T arg. getMemberRef T arg y' = getMemberRef T arg ?y1"
    and B: "\<forall>g \<in> set fs. load y' h' (R g) = Inr (V g)"
    and C: "\<forall>r. r \<notin> R ` set fs \<longrightarrow> load y' h' r = load ?y1 ?h1 r"
    by blast
  have run: "fromDocument st get_to (f # fs) source y h = Inr (y', h')"
    by (simp add: s d case_prod_beta)
  have A': "\<forall>T arg. getMemberRef T arg y' = getMemberRef T arg y"
    using A by (simp add: refs1)
  have Bf: "load y' h' (R f) = Inr (V f)"
    using C nf same1 by simp
  have C': "\<forall>r. r \<notin> R ` set (f # fs) \<longrightarrow> load y' h' r = load y h r"
    using C other1 by simp
  from run A' B Bf C' show ?case by simp
qed


lemma member_value_Inr:
  "member_value T arg y h = Inr w \<longleftrightarrow> (\<exists>r. getMemberRef T arg y = Inr r \<and> load y h r = Inr w)"
  by (cases "getMemberRef T arg y") (simp_all add: member_value_def)

text \<open>
  Claim C1, as the code has it. Take a class whose fields are all registered, under keys
  that differ from field to field, a source object \<open>x\<close> each of whose fields resolves to a
  value (its variants hold the annotated alternative, its handles are not null), and a
  receiving object \<open>y\<close> that is valid in the same way and in which no two fields reach the
  same storage; let the document library convert each field's value to a document and back.
  Then \<^verbatim>\<open>to_json\<close> of \<open>x\<close> into a null document and \<^verbatim>\<open>from_json\<close> of the result into \<open>y\<close> both
  return, and afterwards each field of \<open>y\<close> holds the value the field of \<open>x\<close> held.
\<close>

theorem round_trip_valid_receiver:
  assumes reg: "\<forall>f \<in> set flds. \<exists>name. MemberStorage_get st (fst f) = Inr name"
    and keys: "\<forall>f \<in> set flds. \<forall>g \<in> set flds.
        MemberStorage_get st (fst f) = MemberStorage_get st (fst g) \<longrightarrow> f = g"
    and dist: "distinct flds"
    and src: "\<forall>f \<in> set flds. \<exists>v. member_value (snd f) (fst f) x h = Inr v"
    and rcv: "\<forall>f \<in> set flds. \<exists>w. member_value (snd f) (fst f) y h = Inr w"
    and apart: "inj_on (\<lambda>f. getMemberRef (snd f) (fst f) y) (set flds)"
    and conv: "\<forall>f \<in> set flds. \<forall>v w.
        member_value (snd f) (fst f) x h = Inr v \<longrightarrow>
        member_value (snd f) (fst f) y h = Inr w \<longrightarrow>
        (\<exists>j. to_json v = Inr j \<and> get_to j w = Inr v)"
  shows "\<exists>doc y' h'.
           toDocument st to_json flds x h JNull = Inr doc \<and>
           fromDocument st get_to flds doc y h = Inr (y', h') \<and>
           (\<forall>f \<in> set flds.
              member_value (snd f) (fst f) y' h' = member_value (snd f) (fst f) x h)"
proof -
  from reg obtain K where K: "\<forall>f \<in> set flds. MemberStorage_get st (fst f) = Inr (K f)"
    by (rule bchoice [THEN exE])
  from src obtain V where V: "\<forall>f \<in> set flds. member_value (snd f) (fst f) x h = Inr (V f)"
    by (rule bchoice [THEN exE])
  from rcv obtain W where W: "\<forall>f \<in> set flds. member_value (snd f) (fst f) y h = Inr (W f)"
    by (rule bchoice [THEN exE])
  have "\<forall>f \<in> set flds. \<exists>r. getMemberRef (snd f) (fst f) y = Inr r \<and> load y h r = Inr (W f)"
  proof
    fix f assume "f \<in> set flds"
    with W have "member_value (snd f) (fst f) y h = Inr (W f)" by (rule bspec)
    then show "\<exists>r. getMemberRef (snd f) (fst f) y = Inr r \<and> load y h r = Inr (W f)"
      by (simp only: member_value_Inr)
  qed
  then obtain R where R: "\<forall>f \<in> set flds.
      getMemberRef (snd f) (fst f) y = Inr (R f) \<and> load y h (R f) = Inr (W f)"
    by (rule bchoice [THEN exE])
  have "\<forall>f \<in> set flds. \<exists>j. to_json (V f) = Inr j \<and> get_to j (W f) = Inr (V f)"
  proof
    fix f assume f: "f \<in> set flds"
    from V f have v: "member_value (snd f) (fst f) x h = Inr (V f)" by (rule bspec)
    from W f have w: "member_value (snd f) (fst f) y h = Inr (W f)" by (rule bspec)
    from conv f v w show "\<exists>j. to_json (V f) = Inr j \<and> get_to j (W f) = Inr (V f)" by blast
  qed
  then obtain J where J: "\<forall>f \<in> set flds.
      to_json (V f) = Inr (J f) \<and> get_to (J f) (W f) = Inr (V f)"
    by (rule bchoice [THEN exE])
  have same: "f = g" if "f \<in> set flds" and "g \<in> set flds" and "K f = K g" for f g
  proof -
    from K that(1) have "MemberStorage_get st (fst f) = Inr (K f)" by (rule bspec)
    moreover from K that(2) have "MemberStorage_get st (fst g) = Inr (K g)" by (rule bspec)
    ultimately have "MemberStorage_get st (fst f) = MemberStorage_get st (fst g)"
      using that(3) by simp
    with keys that(1,2) show ?thesis by blast
  qed
  have a2: "\<forall>f \<in> set flds. \<exists>v. member_value (snd f) (fst f) x h = Inr v \<and>
      to_json v = Inr (J f)"
    using V J by blast
  have a3: "\<forall>f \<in> set flds. \<forall>g \<in> set flds. K f = K g \<longrightarrow> J f = J g"
    using same by blast
  have a4: "JNull = JNull \<or> (\<exists>kvs. JNull = JObject kvs)" by simp
  from toDocument_keys [where to_json = to_json, OF K a2 a3 a4]
  obtain doc where D: "toDocument st to_json flds x h JNull = Inr doc \<and>
      (\<forall>f \<in> set flds. json_at doc (K f) = Inr (J f)) \<and>
      (\<forall>k j. k \<notin> K ` set flds \<longrightarrow> json_at JNull k = Inr j \<longrightarrow> json_at doc k = Inr j)" ..
  from D have d: "toDocument st to_json flds x h JNull = Inr doc" by (rule conjunct1)
  from D have b2: "\<forall>f \<in> set flds. json_at doc (K f) = Inr (J f)" by (elim conjE)
  from R have b3: "\<forall>f \<in> set flds. getMemberRef (snd f) (fst f) y = Inr (R f)" by blast
  have b4: "\<forall>f \<in> set flds. \<exists>w. load y h (R f) = Inr w \<and> get_to (J f) w = Inr (V f)"
    using R J by blast
  have b5: "inj_on R (set flds)"
  proof (rule inj_onI)
    fix f g assume f: "f \<in> set flds" and g: "g \<in> set flds" and e: "R f = R g"
    from b3 f have "getMemberRef (snd f) (fst f) y = Inr (R f)" by (rule bspec)
    moreover from b3 g have "getMemberRef (snd g) (fst g) y = Inr (R g)" by (rule bspec)
    ultimately have "getMemberRef (snd f) (fst f) y = getMemberRef (snd g) (fst g) y"
      using e by simp
    with apart f g show "f = g" by (simp only: inj_on_def)
  qed
  from fromDocument_refs [where get_to = get_to, OF K b2 b3 b4 b5 dist]
  obtain y' h' where F: "fromDocument st get_to flds doc y h = Inr (y', h') \<and>
      (\<forall>T arg. getMemberRef T arg y' = getMemberRef T arg y) \<and>
      (\<forall>f \<in> set flds. load y' h' (R f) = Inr (V f)) \<and>
      (\<forall>r. r \<notin> R ` set flds \<longrightarrow> load y' h' r = load y h r)"
    by (elim exE)
  from F have run: "fromDocument st get_to flds doc y h = Inr (y', h')" by (rule conjunct1)
  from F have refs: "\<forall>T arg. getMemberRef T arg y' = getMemberRef T arg y" by (elim conjE)
  from F have vals: "\<forall>f \<in> set flds. load y' h' (R f) = Inr (V f)" by (elim conjE)
  have eq: "\<forall>f \<in> set flds.
      member_value (snd f) (fst f) y' h' = member_value (snd f) (fst f) x h"
  proof
    fix f assume f: "f \<in> set flds"
    from b3 f have "getMemberRef (snd f) (fst f) y = Inr (R f)" by (rule bspec)
    with refs have r: "getMemberRef (snd f) (fst f) y' = Inr (R f)" by simp
    from vals f have l: "load y' h' (R f) = Inr (V f)" by (rule bspec)
    from r l have "member_value (snd f) (fst f) y' h' = Inr (V f)"
      by (simp add: member_value_def)
    moreover from V f have "member_value (snd f) (fst f) x h = Inr (V f)" by (rule bspec)
    ultimately show "member_value (snd f) (fst f) y' h' = member_value (snd f) (fst f) x h"
      by simp
  qed
  from d run eq show ?thesis by (intro exI conjI)
qed

theorem round_trip_valid_receiver_witness:
  "\<exists>doc y' h'.
     toDocument sample_storage sample_to_json sample_fields sample_object sample_heap JNull
       = Inr doc \<and>
     fromDocument sample_storage sample_get_to sample_fields doc receiver_object sample_heap
       = Inr (y', h') \<and>
     member_value 0 member_x y' h' = Inr (Int_val 3) \<and>
     member_value 1 member_u y' h' = Inr (String_val ''b'') \<and>
     member_value 0 member_p y' h' = Inr (Int_val 9)"
proof -
  have mx: "member_value 0 member_x sample_object sample_heap = Inr (Int_val 3)"
    by (simp add: member_value_def getMemberRef_def sample_object_def)
  have mu: "member_value 1 member_u sample_object sample_heap = Inr (String_val ''b'')"
    by (simp add: member_value_def getMemberRef_def sample_object_def)
  have mp: "member_value 0 member_p sample_object sample_heap = Inr (Int_val 9)"
    by (simp add: member_value_def getMemberRef_def sample_object_def sample_heap_def)
  have rx: "member_value 0 member_x receiver_object sample_heap = Inr (Int_val 0)"
    by (simp add: member_value_def getMemberRef_def receiver_object_def)
  have ru: "member_value 1 member_u receiver_object sample_heap = Inr (String_val [])"
    by (simp add: member_value_def getMemberRef_def receiver_object_def)
  have rp: "member_value 0 member_p receiver_object sample_heap = Inr (Int_val 0)"
    by (simp add: member_value_def getMemberRef_def receiver_object_def sample_heap_def)
  note vals = mx mu [unfolded One_nat_def] mp rx ru [unfolded One_nat_def] rp
  have reg: "\<forall>f \<in> set sample_fields. \<exists>name. MemberStorage_get sample_storage (fst f) = Inr name"
    by (simp add: sample_fields_def)
  have keys: "\<forall>f \<in> set sample_fields. \<forall>g \<in> set sample_fields.
      MemberStorage_get sample_storage (fst f) = MemberStorage_get sample_storage (fst g) \<longrightarrow>
      f = g"
    by (simp add: sample_fields_def)
  have dist: "distinct sample_fields"
    by (simp add: sample_fields_def member_x_def member_u_def member_p_def)
  have src: "\<forall>f \<in> set sample_fields. \<exists>v.
      member_value (snd f) (fst f) sample_object sample_heap = Inr v"
    by (simp add: sample_fields_def vals)
  have rcv: "\<forall>f \<in> set sample_fields. \<exists>w.
      member_value (snd f) (fst f) receiver_object sample_heap = Inr w"
    by (simp add: sample_fields_def vals)
  have gx: "getMemberRef 0 member_x receiver_object = Inr (Ref_member 0)"
    by (simp add: getMemberRef_def receiver_object_def)
  have gu: "getMemberRef (Suc 0) member_u receiver_object = Inr (Ref_arm (Suc 0))"
    by (simp add: getMemberRef_def receiver_object_def)
  have gp: "getMemberRef 0 member_p receiver_object = Inr (Ref_pointee 101)"
    by (simp add: getMemberRef_def receiver_object_def)
  have apart: "inj_on (\<lambda>f. getMemberRef (snd f) (fst f) receiver_object) (set sample_fields)"
    unfolding inj_on_def by (simp add: sample_fields_def gx gu gp)
  have conv: "\<forall>f \<in> set sample_fields. \<forall>v w.
      member_value (snd f) (fst f) sample_object sample_heap = Inr v \<longrightarrow>
      member_value (snd f) (fst f) receiver_object sample_heap = Inr w \<longrightarrow>
      (\<exists>j. sample_to_json v = Inr j \<and> sample_get_to j w = Inr v)"
    by (simp add: sample_fields_def vals)
  from round_trip_valid_receiver [where to_json = sample_to_json and get_to = sample_get_to,
      OF reg keys dist src rcv apart conv]
  obtain doc y' h' where
    d: "toDocument sample_storage sample_to_json sample_fields sample_object sample_heap JNull
       = Inr doc"
    and r: "fromDocument sample_storage sample_get_to sample_fields doc receiver_object
       sample_heap = Inr (y', h')"
    and e: "\<forall>f \<in> set sample_fields.
       member_value (snd f) (fst f) y' h'
         = member_value (snd f) (fst f) sample_object sample_heap"
    by blast
  from e have "member_value 0 member_x y' h' = Inr (Int_val 3)"
    and "member_value 1 member_u y' h' = Inr (String_val ''b'')"
    and "member_value 0 member_p y' h' = Inr (Int_val 9)"
    by (simp_all add: sample_fields_def vals)
  with d r show ?thesis by blast
qed

text \<open>
  Into a default-constructed object, whose variant holds its first alternative, the
  variant field is not read back: \<^verbatim>\<open>std::get\<close> for the second alternative throws inside
  \<^verbatim>\<open>from_json_simple\<close>, and the field stays as it was.
\<close>

theorem round_trip_default_receiver_counterexample:
  "toDocument sample_storage sample_to_json [(member_x, 0), (member_u, 1)]
     sample_object sample_heap JNull
     = Inr (JObject [(''x'', JNumber 3), (''u'', JString ''b'')]) \<and>
   fromDocument sample_storage sample_get_to [(member_x, 0), (member_u, 1)]
     (JObject [(''x'', JNumber 3), (''u'', JString ''b'')]) default_object sample_heap
     = Inr (default_object(0 := Plain (Int_val 3)), sample_heap) \<and>
   (default_object(0 := Plain (Int_val 3))) 1 = Variant 0 (Int_val 0) \<and>
   sample_object 1 = Variant 1 (String_val ''b'') \<and>
   member_value 1 member_u (default_object(0 := Plain (Int_val 3))) sample_heap
     = Inl (Throw Bad_variant_access) \<and>
   member_value 1 member_u sample_object sample_heap = Inr (String_val ''b'')"
  by (simp add: to_json_simple_def from_json_simple_def try_catch_def handleException_def
      getMemberRef_def member_value_def json_subscript_assign_def json_at_def
      sample_object_def default_object_def)

end
